theory Spec2Isabelle
  imports Main
begin

section \<open>Strings\<close>

text \<open>
  Python's \<open>str\<close> is modelled as \<^typ>\<open>string\<close>, one \<^typ>\<open>char\<close> per code point,
  for the code points 0 to 255 (ASCII and Latin-1). On this range the string methods
  the program calls act character by character, and are written out below.
\<close>

definition isspace :: "char \<Rightarrow> bool" where
  \<comment> \<open>\<open>str.isspace\<close> on one code point: what \<open>strip()\<close> and \<open>split()\<close> treat as white space\<close>
  "isspace c = (let n = (of_char c :: nat) in
     (9 \<le> n \<and> n \<le> 13) \<or> (28 \<le> n \<and> n \<le> 32) \<or> n = 133 \<or> n = 160)"

definition strip :: "string \<Rightarrow> string" where
  "strip s = rev (dropWhile isspace (rev (dropWhile isspace s)))"

definition lower_char :: "char \<Rightarrow> char" where
  "lower_char c = (let n = (of_char c :: nat) in
     if (65 \<le> n \<and> n \<le> 90) \<or> (192 \<le> n \<and> n \<le> 222 \<and> n \<noteq> 215)
     then char_of (n + 32) else c)"

definition lower :: "string \<Rightarrow> string" where
  "lower s = map lower_char s"

fun py_in :: "string \<Rightarrow> string \<Rightarrow> bool" where
  \<comment> \<open>\<open>needle in hay\<close>: \<open>needle\<close> occurs in \<open>hay\<close> as a contiguous block\<close>
  "py_in needle [] = (needle = [])"
| "py_in needle (c # cs) = (take (length needle) (c # cs) = needle \<or> py_in needle cs)"

function replace_empty :: "string \<Rightarrow> string \<Rightarrow> string" where
  \<comment> \<open>\<open>s.replace(old, '')\<close>: the occurrences of \<open>old\<close> are deleted, left to right\<close>
  "replace_empty old s =
     (if s = [] then []
      else if old \<noteq> [] \<and> take (length old) s = old
      then replace_empty old (drop (length old) s)
      else hd s # replace_empty old (tl s))"
  by pat_completeness auto
termination
  by (relation "measure (\<lambda>(old, s). length s)") auto

declare replace_empty.simps [simp del]

fun split_ws :: "string \<Rightarrow> string \<Rightarrow> string list" where
  \<comment> \<open>\<open>str.split()\<close>, with the token being read (reversed) as accumulator\<close>
  "split_ws acc [] = (if acc = [] then [] else [rev acc])"
| "split_ws acc (c # cs) =
     (if isspace c then (if acc = [] then split_ws [] cs else rev acc # split_ws [] cs)
      else split_ws (c # acc) cs)"

definition split :: "string \<Rightarrow> string list" where
  "split s = split_ws [] s"

definition isdecimal :: "char \<Rightarrow> bool" where
  \<comment> \<open>the regular expression class \<open>\d\<close>: the decimal digits\<close>
  "isdecimal c = (let n = (of_char c :: nat) in 48 \<le> n \<and> n \<le> 57)"

definition isdigit_char :: "char \<Rightarrow> bool" where
  \<comment> \<open>\<open>str.isdigit\<close> on one code point: the decimal digits and the superscripts 1, 2, 3\<close>
  "isdigit_char c = (let n = (of_char c :: nat) in
     (48 \<le> n \<and> n \<le> 57) \<or> n = 178 \<or> n = 179 \<or> n = 185)"

definition isdigit :: "string \<Rightarrow> bool" where
  "isdigit s = (s \<noteq> [] \<and> list_all isdigit_char s)"

subsection \<open>\<open>urllib.parse.quote\<close>\<close>

definition hex_digit :: "nat \<Rightarrow> char" where
  "hex_digit n = (if n < 10 then char_of (48 + n) else char_of (55 + n))"

definition percent :: "nat \<Rightarrow> string" where
  "percent b = [CHR ''%'', hex_digit (b div 16), hex_digit (b mod 16)]"

definition utf8 :: "char \<Rightarrow> nat list" where
  "utf8 c = (let n = (of_char c :: nat) in
     if n < 128 then [n] else [192 + n div 64, 128 + n mod 64])"

definition always_safe :: "char \<Rightarrow> bool" where
  "always_safe c = (let n = (of_char c :: nat) in
     (48 \<le> n \<and> n \<le> 57) \<or> (65 \<le> n \<and> n \<le> 90) \<or> (97 \<le> n \<and> n \<le> 122)
     \<or> n = 95 \<or> n = 46 \<or> n = 45 \<or> n = 126)"

definition quote_char :: "char \<Rightarrow> string" where
  "quote_char c =
     (if always_safe c \<or> c = CHR ''/'' then [c] else concat (map percent (utf8 c)))"

definition quote :: "string \<Rightarrow> string" where
  "quote s = concat (map quote_char s)"

section \<open>The leaf utilities\<close>

fun search_4digits :: "string \<Rightarrow> string option" where
  \<comment> \<open>\<open>re.search(r'\d{4}', s)\<close>: the leftmost four consecutive digits; the group matched\<close>
  "search_4digits [] = None"
| "search_4digits (c # cs) =
     (if 4 \<le> length (c # cs) \<and> list_all isdecimal (take 4 (c # cs))
      then Some (take 4 (c # cs)) else search_4digits cs)"

text \<open>
  A cell of the data frame is \<^typ>\<open>string option\<close>: \<open>None\<close> is the null cell
  (\<open>pd.isnull\<close>), \<open>Some s\<close> a cell whose \<open>str()\<close> is \<open>s\<close>.
\<close>

definition extract_year :: "string option \<Rightarrow> string" where
  "extract_year pubdate =
     (case pubdate of
        None \<Rightarrow> []
      | Some p \<Rightarrow> (case search_4digits (strip p) of Some m \<Rightarrow> m | None \<Rightarrow> []))"

fun first_isbn13 :: "string list \<Rightarrow> string option" where
  \<comment> \<open>the loop over the tokens in \<open>extract_isbn13\<close>\<close>
  "first_isbn13 [] = None"
| "first_isbn13 (p # ps) = (if length p = 13 \<and> isdigit p then Some p else first_isbn13 ps)"

definition extract_isbn13 :: "string \<Rightarrow> string option" where
  "extract_isbn13 isbn_str = (if isbn_str = [] then None else first_isbn13 (split isbn_str))"

section \<open>The search service\<close>

text \<open>
  One item of the \<open>items\<close> array of a response. Every field is read with
  \<open>item.get(key, '')\<close>, so a missing key is the empty string. The dictionary that
  \<open>get_book_info_by_isbn13\<close> returns has the same six keys and is an \<open>item\<close> too.
\<close>

record item =
  title :: string
  author :: string
  publisher :: string
  pubdate :: string
  price :: string
  isbn :: string

text \<open>
  What \<open>requests.get\<close> gives: a response with its status code and the \<open>items\<close> of
  its JSON body (\<open>data.get('items', [])\<close>), or a \<open>RequestException\<close> (a body that is
  not JSON raises one as well).
\<close>

datatype response = Response nat "item list" | RequestException

text \<open>
  The service is outside the program: it answers a request from the requests made
  before it (the log, oldest first) and the URL. The log is the state the lookups
  thread through; a lookup that returns its log unchanged made no network call.
  The pauses (\<open>time.sleep\<close>) change no value and are left out.
\<close>

type_synonym log = "string list"
type_synonym service = "log \<Rightarrow> string \<Rightarrow> response"

definition url :: string where
  "url = ''https://openapi.naver.com/v1/search/book.json''"

definition full_url :: "string \<Rightarrow> nat \<Rightarrow> string" where
  \<comment> \<open>display is 1 or 5 here, one decimal digit\<close>
  "full_url query display = url @ ''?query='' @ quote query @ ''&display='' @ [char_of (48 + display)]"

subsection \<open>Lookup by ISBN13\<close>

definition clean_title :: "string \<Rightarrow> string" where
  \<comment> \<open>\<open>.replace('<b>', '').replace('</b>', '').strip()\<close>\<close>
  "clean_title t = strip (replace_empty ''</b>'' (replace_empty ''<b>'' t))"

definition book_info :: "item \<Rightarrow> item" where
  "book_info it =
     \<lparr>title = clean_title (title it), author = strip (author it),
      publisher = strip (publisher it), pubdate = strip (pubdate it),
      price = strip (price it), isbn = strip (isbn it)\<rparr>"

function book_info_attempts ::
  "service \<Rightarrow> string \<Rightarrow> nat \<Rightarrow> nat \<Rightarrow> log \<Rightarrow> item option \<times> log" where
  \<comment> \<open>the \<open>while retries < max_retries\<close> loop of \<open>get_book_info_by_isbn13\<close>\<close>
  "book_info_attempts srv u max_retries retries lg =
     (if retries < max_retries then
        (case srv lg u of
           RequestException \<Rightarrow> (None, lg @ [u])
         | Response status_code items \<Rightarrow>
             if status_code = 200 then
               (case items of
                  it # _ \<Rightarrow> (Some (book_info it), lg @ [u])
                | [] \<Rightarrow> (None, lg @ [u]))
             else if status_code = 429 then
               book_info_attempts srv u max_retries (retries + 1) (lg @ [u])
             else (None, lg @ [u]))
      else (None, lg))"
  by pat_completeness auto
termination
  by (relation "measure (\<lambda>(srv, u, max_retries, retries, lg). max_retries - retries)") auto

declare book_info_attempts.simps [simp del]

definition get_book_info_by_isbn13_body ::
  "service \<Rightarrow> string \<Rightarrow> nat \<Rightarrow> log \<Rightarrow> item option \<times> log" where
  "get_book_info_by_isbn13_body srv isbn13 max_retries lg =
     book_info_attempts srv (full_url isbn13 1) max_retries 0 lg"

text \<open>
  The function is decorated with \<open>st.cache_data\<close>: its results, \<open>None\<close> too, are
  remembered by argument. It is only ever called with the ISBN13 (and the default
  \<open>max_retries = 5\<close>), so the memo is keyed by the ISBN13.
\<close>

type_synonym memo = "string \<rightharpoonup> item option"

definition get_book_info_by_isbn13 ::
  "service \<Rightarrow> string \<Rightarrow> memo \<times> log \<Rightarrow> item option \<times> memo \<times> log" where
  "get_book_info_by_isbn13 srv isbn13 w =
     (case fst w isbn13 of
        Some r \<Rightarrow> (r, w)
      | None \<Rightarrow>
          (case get_book_info_by_isbn13_body srv isbn13 5 (snd w) of
             (r, lg') \<Rightarrow> (r, (fst w)(isbn13 \<mapsto> r), lg')))"

subsection \<open>Resolution from title, author, publisher and year\<close>

record wanted =
  w_title :: string
  w_author :: string
  w_publisher :: string
  w_pub_year :: string

definition item_matches :: "wanted \<Rightarrow> item \<Rightarrow> bool" where
  \<comment> \<open>the condition of the \<open>if\<close> inside \<open>for item in items\<close>\<close>
  "item_matches w it =
     (let item_title = lower (clean_title (title it));
          item_author = lower (strip (author it));
          item_publisher = lower (strip (publisher it));
          item_pub_year = extract_year (Some (strip (pubdate it)))
      in py_in (lower (w_title w)) item_title
         \<and> py_in (lower (w_author w)) item_author
         \<and> py_in (lower (w_publisher w)) item_publisher
         \<and> w_pub_year w = item_pub_year)"

fun scan_items :: "wanted \<Rightarrow> item list \<Rightarrow> string option" where
  \<comment> \<open>\<open>for item in items\<close>: returns from inside the loop only with an ISBN13 in hand\<close>
  "scan_items w [] = None"
| "scan_items w (it # its) =
     (if item_matches w it then
        (case extract_isbn13 (isbn it) of
           Some isbn13 \<Rightarrow> Some isbn13
         | None \<Rightarrow> scan_items w its)
      else scan_items w its)"

definition choose_isbn13 :: "wanted \<Rightarrow> item \<Rightarrow> item list \<Rightarrow> string option" where
  \<comment> \<open>the body of \<open>if items:\<close> for the items \<open>first_item # rest\<close>\<close>
  "choose_isbn13 w first_item rest =
     (case scan_items w (first_item # rest) of
        Some isbn13 \<Rightarrow> Some isbn13
      | None \<Rightarrow> extract_isbn13 (isbn first_item))"

datatype outcome = Return "string option" | Break

function query_attempts ::
  "service \<Rightarrow> wanted \<Rightarrow> string \<Rightarrow> nat \<Rightarrow> nat \<Rightarrow> log \<Rightarrow> outcome \<times> log" where
  \<comment> \<open>the \<open>while retries < max_retries\<close> loop for one query; the loop is left by
      \<open>return\<close>, by \<open>break\<close>, or because the retries are used up, and the last two
      both go on to the next query\<close>
  "query_attempts srv w u max_retries retries lg =
     (if retries < max_retries then
        (case srv lg u of
           RequestException \<Rightarrow> (Return None, lg @ [u])
         | Response status_code items \<Rightarrow>
             if status_code = 200 then
               (case items of
                  first_item # rest \<Rightarrow> (Return (choose_isbn13 w first_item rest), lg @ [u])
                | [] \<Rightarrow> (Break, lg @ [u]))
             else if status_code = 429 then
               query_attempts srv w u max_retries (retries + 1) (lg @ [u])
             else (Return None, lg @ [u]))
      else (Break, lg))"
  by pat_completeness auto
termination
  by (relation "measure (\<lambda>(srv, w, u, max_retries, retries, lg). max_retries - retries)") auto

declare query_attempts.simps [simp del]

fun cascade :: "service \<Rightarrow> wanted \<Rightarrow> nat \<Rightarrow> string list \<Rightarrow> log \<Rightarrow> string option \<times> log" where
  \<comment> \<open>\<open>for query in query_combinations\<close>, and the \<open>return None\<close> after it\<close>
  "cascade srv w max_retries [] lg = (None, lg)"
| "cascade srv w max_retries (query # queries) lg =
     (case query_attempts srv w (full_url query 5) max_retries 0 lg of
        (Return r, lg') \<Rightarrow> (r, lg')
      | (Break, lg') \<Rightarrow> cascade srv w max_retries queries lg')"

definition query_combinations :: "wanted \<Rightarrow> string list" where
  "query_combinations w =
     [w_title w @ '' '' @ w_author w @ '' '' @ w_publisher w @ '' '' @ w_pub_year w,
      w_title w @ '' '' @ w_author w,
      w_title w @ '' '' @ w_publisher w,
      w_title w]"

definition get_isbn13_from_title_author_pub ::
  "service \<Rightarrow> wanted \<Rightarrow> nat \<Rightarrow> log \<Rightarrow> string option \<times> log" where
  "get_isbn13_from_title_author_pub srv w max_retries lg =
     cascade srv w max_retries (query_combinations w) lg"

section \<open>The two batch workflows\<close>

definition cell_text :: "string option \<Rightarrow> string" where
  \<comment> \<open>\<open>str(row[col]).strip() if not pd.isnull(row[col]) else ''\<close>\<close>
  "cell_text c = (case c of None \<Rightarrow> [] | Some s \<Rightarrow> strip s)"

subsection \<open>Feature 1: filling in the ISBN13\<close>

text \<open>
  A row of the uploaded sheet, with the five required columns in the order of
  \<open>required_columns\<close>: title, author, publisher, publication year, ISBN.
\<close>

record convert_row =
  c_title :: "string option"
  c_author :: "string option"
  c_publisher :: "string option"
  c_year :: "string option"
  c_isbn :: "string option"

text \<open>
  What the loop writes into the ISBN column: the marker for a row without title
  (source line 189), the ISBN13 found (line 200), or the marker for no information
  (line 202).
\<close>

datatype isbn_cell = NoTitle | Isbn13 string | NoInfo

type_synonym cache_key = "string \<times> string \<times> string \<times> string"
type_synonym isbn_cache = "cache_key \<rightharpoonup> string option"

definition cache_key :: "convert_row \<Rightarrow> cache_key" where
  "cache_key row =
     (cell_text (c_title row), cell_text (c_author row), cell_text (c_publisher row),
      extract_year (c_year row))"

definition isbn_column :: "string option \<Rightarrow> isbn_cell" where
  \<comment> \<open>\<open>if isbn13: ... else: ...\<close>: \<open>None\<close> and the empty string are both false\<close>
  "isbn_column isbn13 =
     (case isbn13 of None \<Rightarrow> NoInfo | Some s \<Rightarrow> if s \<noteq> [] then Isbn13 s else NoInfo)"

definition convert_one ::
  "service \<Rightarrow> convert_row \<Rightarrow> isbn_cache \<times> log \<Rightarrow> isbn_cell \<times> isbn_cache \<times> log" where
  \<comment> \<open>the body of \<open>for idx, row in df.iterrows()\<close> in \<open>run_feature_1\<close>\<close>
  "convert_one srv row st =
     (let title = cell_text (c_title row);
          author = cell_text (c_author row);
          publisher = cell_text (c_publisher row);
          year = extract_year (c_year row)
      in if title = [] then (NoTitle, st)
         else
           (let key = (title, author, publisher, year) in
            case fst st key of
              Some isbn13 \<Rightarrow> (isbn_column isbn13, st)
            | None \<Rightarrow>
                (case get_isbn13_from_title_author_pub srv
                        \<lparr>w_title = title, w_author = author, w_publisher = publisher,
                         w_pub_year = year\<rparr> 5 (snd st) of
                   (isbn13, lg') \<Rightarrow> (isbn_column isbn13, (fst st)(key \<mapsto> isbn13), lg'))))"

fun convert_rows ::
  "service \<Rightarrow> convert_row list \<Rightarrow> isbn_cache \<times> log \<Rightarrow> isbn_cell list \<times> isbn_cache \<times> log" where
  "convert_rows srv [] st = ([], st)"
| "convert_rows srv (row # rows) st =
     (case convert_one srv row st of
        (c, st') \<Rightarrow> (case convert_rows srv rows st' of (cs, st'') \<Rightarrow> (c # cs, st'')))"

definition run_feature_1 ::
  "service \<Rightarrow> convert_row list \<Rightarrow> log \<Rightarrow> isbn_cell list \<times> isbn_cache \<times> log" where
  \<comment> \<open>\<open>isbn_cache = {}\<close>, then the loop\<close>
  "run_feature_1 srv rows lg = convert_rows srv rows (Map.empty, lg)"

subsection \<open>Feature 2: comparing a row with the record found by its ISBN13\<close>

text \<open>
  A row of the uploaded sheet, with the seven required columns in the order of
  \<open>required_columns\<close>: ISBN10, ISBN13, title, publication date, publisher, author,
  list price.
\<close>

record verify_row =
  v_isbn10 :: "string option"
  v_isbn13 :: "string option"
  v_title :: "string option"
  v_pubdate :: "string option"
  v_publisher :: "string option"
  v_author :: "string option"
  v_price :: "string option"

text \<open>
  The two columns the loop fills. The verdict column holds one of four labels
  (source lines 251, 261, 295, 297). The items column holds a note that the ISBN13
  was not entered (line 252), a note that the search had no result (line 262), the
  names of the mismatched fields joined by commas (line 298), or is left as it was
  created, empty (line 238). The five names that can be joined are those of the
  title, the author, the publisher, the publication year and the list price.
\<close>

datatype verdict = CannotSearch | SearchFailed | Match | Mismatch

datatype field = Title | Author | Publisher | Year | Price

datatype items_column = Untouched | Isbn13NotEntered | NoSearchResult | Joined "field list"

definition mismatch_list :: "string \<Rightarrow> string \<Rightarrow> string \<Rightarrow> string \<Rightarrow> string \<Rightarrow> item \<Rightarrow> field list" where
  \<comment> \<open>source lines 266 to 292: the list after the five conditional appends\<close>
  "mismatch_list original_title original_author original_publisher original_price
      original_pubdate info =
     (let api_title = lower (title info);
          api_author = lower (author info);
          api_publisher = lower (publisher info);
          api_price = price info;
          api_pubdate = extract_year (Some (pubdate info));
          o_title = lower original_title;
          o_author = lower original_author;
          o_publisher = lower original_publisher;
          o_price = original_price;
          o_pubdate = extract_year (Some original_pubdate)
      in (if o_title \<noteq> [] \<and> (\<not> py_in o_title api_title \<and> \<not> py_in api_title o_title)
          then [Title] else [])
       @ (if o_author \<noteq> [] \<and> (\<not> py_in o_author api_author \<and> \<not> py_in api_author o_author)
          then [Author] else [])
       @ (if o_publisher \<noteq> []
             \<and> (\<not> py_in o_publisher api_publisher \<and> \<not> py_in api_publisher o_publisher)
          then [Publisher] else [])
       @ (if o_pubdate \<noteq> [] \<and> o_pubdate \<noteq> api_pubdate then [Year] else [])
       @ (if o_price \<noteq> [] \<and> o_price \<noteq> api_price then [Price] else []))"

definition verify_one ::
  "service \<Rightarrow> verify_row \<Rightarrow> memo \<times> log \<Rightarrow> (verdict \<times> items_column) \<times> memo \<times> log" where
  \<comment> \<open>the body of \<open>for idx, row in df.iterrows()\<close> in \<open>run_feature_2\<close>\<close>
  "verify_one srv row w =
     (let original_isbn10 = cell_text (v_isbn10 row);
          original_isbn13 = cell_text (v_isbn13 row);
          original_title = cell_text (v_title row);
          original_author = cell_text (v_author row);
          original_publisher = cell_text (v_publisher row);
          original_price = cell_text (v_price row);
          original_pubdate = cell_text (v_pubdate row)
      in if original_isbn13 = [] \<or> length original_isbn13 < 13
         then ((CannotSearch, Isbn13NotEntered), w)
         else
           (case get_book_info_by_isbn13 srv original_isbn13 w of
              (None, w') \<Rightarrow> ((SearchFailed, NoSearchResult), w')
            | (Some info, w') \<Rightarrow>
                (let ml = mismatch_list original_title original_author original_publisher
                            original_price original_pubdate info
                 in if length ml = 0 then ((Match, Untouched), w')
                    else ((Mismatch, Joined ml), w'))))"

fun run_feature_2 ::
  "service \<Rightarrow> verify_row list \<Rightarrow> memo \<times> log \<Rightarrow> (verdict \<times> items_column) list \<times> memo \<times> log" where
  "run_feature_2 srv [] w = ([], w)"
| "run_feature_2 srv (row # rows) w =
     (case verify_one srv row w of
        (out, w') \<Rightarrow> (case run_feature_2 srv rows w' of (outs, w'') \<Rightarrow> (out # outs, w'')))"

section \<open>Notions used to state the properties\<close>

definition digits4_at :: "string \<Rightarrow> nat \<Rightarrow> bool" where
  \<comment> \<open>four consecutive decimal digits stand at position \<open>i\<close> of \<open>s\<close>\<close>
  "digits4_at s i = (i + 4 \<le> length s \<and> list_all isdecimal (take 4 (drop i s)))"

definition rate_limited :: "service \<Rightarrow> log \<Rightarrow> string \<Rightarrow> nat \<Rightarrow> bool" where
  \<comment> \<open>from the log \<open>lg\<close> on, the first \<open>k\<close> requests of \<open>u\<close> in a row are answered 429\<close>
  "rate_limited srv lg u k = (\<forall>j<k. \<exists>its. srv (lg @ replicate j u) u = Response 429 its)"

fun spec_flagged :: "verify_row \<Rightarrow> item \<Rightarrow> field \<Rightarrow> bool" where
  \<comment> \<open>the comparison rules in the words of the specification (section 4.7, step 3):
      containment either way for title, author and publisher, equal extracted years,
      equal price strings, each skipped when the original field is empty\<close>
  "spec_flagged row info Title =
     (let original = lower (cell_text (v_title row)); fetched = lower (title info)
      in original \<noteq> [] \<and> \<not> (py_in original fetched \<or> py_in fetched original))"
| "spec_flagged row info Author =
     (let original = lower (cell_text (v_author row)); fetched = lower (author info)
      in original \<noteq> [] \<and> \<not> (py_in original fetched \<or> py_in fetched original))"
| "spec_flagged row info Publisher =
     (let original = lower (cell_text (v_publisher row)); fetched = lower (publisher info)
      in original \<noteq> [] \<and> \<not> (py_in original fetched \<or> py_in fetched original))"
| "spec_flagged row info Year =
     (let original = extract_year (Some (cell_text (v_pubdate row)))
      in original \<noteq> [] \<and> original \<noteq> extract_year (Some (pubdate info)))"
| "spec_flagged row info Price =
     (cell_text (v_price row) \<noteq> [] \<and> cell_text (v_price row) \<noteq> price info)"

section \<open>Example inputs\<close>

definition wanted_long_title :: wanted where
  "wanted_long_title = \<lparr>w_title = ''Foo Bar'', w_author = [], w_publisher = [], w_pub_year = []\<rparr>"

definition item_short_title :: item where
  "item_short_title =
     \<lparr>title = ''<b>Foo</b>'', author = ''Kim'', publisher = ''Hanbit'', pubdate = [],
      price = ''12000'', isbn = ''8901234567 9788901234567''\<rparr>"

definition wanted_no_year :: wanted where
  "wanted_no_year = \<lparr>w_title = ''Foo'', w_author = [], w_publisher = [], w_pub_year = []\<rparr>"

definition item_dated :: item where
  "item_dated =
     \<lparr>title = ''<b>Foo</b> Bar'', author = ''Kim'', publisher = ''Hanbit'', pubdate = ''20210301'',
      price = ''12000'', isbn = ''8901234567 9788901234567''\<rparr>"

definition wanted_foo :: wanted where
  "wanted_foo = \<lparr>w_title = ''Foo'', w_author = ''Kim'', w_publisher = ''Hanbit'', w_pub_year = ''2021''\<rparr>"

definition item_no_isbn :: item where
  "item_no_isbn =
     \<lparr>title = ''<b>Foo</b>'', author = ''Kim'', publisher = ''Hanbit'', pubdate = ''20210301'',
      price = ''12000'', isbn = []\<rparr>"

definition item_with_isbn :: item where
  "item_with_isbn =
     \<lparr>title = ''<b>Foo</b>, 2nd ed.'', author = ''Kim'', publisher = ''Hanbit'', pubdate = ''20210301'',
      price = ''15000'', isbn = ''8901234567 9788901234567''\<rparr>"

definition item_other :: item where
  "item_other =
     \<lparr>title = ''Baz'', author = ''Lee'', publisher = ''Gilbut'', pubdate = ''20190101'',
      price = ''9000'', isbn = ''1162240000 9791162240007''\<rparr>"

definition limited_first :: "nat \<Rightarrow> item list \<Rightarrow> service" where
  \<comment> \<open>a service that answers 429 to its first \<open>n\<close> requests and 200 with \<open>its\<close> afterwards\<close>
  "limited_first n its lg u = (if length lg < n then Response 429 [] else Response 200 its)"

definition always :: "response \<Rightarrow> service" where
  \<comment> \<open>a service that gives the same answer to every request\<close>
  "always r lg u = r"

definition row_short_isbn13 :: verify_row where
  "row_short_isbn13 =
     \<lparr>v_isbn10 = Some ''8901234567'', v_isbn13 = Some '' 123 '', v_title = Some ''Foo'',
      v_pubdate = Some ''2021-03-01'', v_publisher = Some ''Hanbit'', v_author = Some ''Kim'',
      v_price = Some ''10000''\<rparr>"

definition row_foo :: verify_row where
  "row_foo =
     \<lparr>v_isbn10 = None, v_isbn13 = Some ''9788901234567'', v_title = Some ''Foo'',
      v_pubdate = None, v_publisher = None, v_author = None, v_price = Some ''10000''\<rparr>"

definition item_foo_bar :: item where
  "item_foo_bar =
     \<lparr>title = ''<b>Foo</b> Bar'', author = ''Kim'', publisher = ''Hanbit'', pubdate = ''20210301'',
      price = ''12000'', isbn = ''8901234567 9788901234567''\<rparr>"

definition row_kim :: convert_row where
  "row_kim =
     \<lparr>c_title = Some ''Foo'', c_author = Some ''Kim'', c_publisher = Some ''Hanbit'',
      c_year = Some ''2021'', c_isbn = Some ''8901234567''\<rparr>"

definition row_kim_again :: convert_row where
  \<comment> \<open>the same book, typed with blanks around the title and a full date as year\<close>
  "row_kim_again =
     \<lparr>c_title = Some '' Foo '', c_author = Some ''Kim'', c_publisher = Some ''Hanbit '',
      c_year = Some ''2021-03-01'', c_isbn = None\<rparr>"

definition row_untitled :: convert_row where
  "row_untitled =
     \<lparr>c_title = None, c_author = Some ''Lee'', c_publisher = None, c_year = None, c_isbn = None\<rparr>"

section \<open>Properties\<close>

subsection \<open>The year extractor\<close>

lemma search_4digits_None:
  "(search_4digits s = None) = (\<forall>i. \<not> digits4_at s i)"
proof (induction s)
  case Nil
  then show ?case by (simp add: digits4_at_def)
next
  case (Cons c cs)
  have shift: "digits4_at (c # cs) (Suc i) = digits4_at cs i" for i
    by (simp add: digits4_at_def add.commute)
  show ?case
  proof (cases "digits4_at (c # cs) 0")
    case True
    then have "search_4digits (c # cs) \<noteq> None"
      by (simp add: digits4_at_def)
    with True show ?thesis by blast
  next
    case False
    then have "search_4digits (c # cs) = search_4digits cs"
      by (auto simp: digits4_at_def)
    moreover have "(\<forall>i. \<not> digits4_at (c # cs) i) = (\<forall>i. \<not> digits4_at cs i)"
    proof
      assume "\<forall>i. \<not> digits4_at (c # cs) i"
      then show "\<forall>i. \<not> digits4_at cs i" using shift by blast
    next
      assume a: "\<forall>i. \<not> digits4_at cs i"
      show "\<forall>i. \<not> digits4_at (c # cs) i"
      proof
        fix i show "\<not> digits4_at (c # cs) i"
          using a False shift by (cases i) auto
      qed
    qed
    ultimately show ?thesis using Cons.IH by simp
  qed
qed

lemma search_4digits_leftmost:
  "digits4_at s i \<Longrightarrow> (\<forall>j<i. \<not> digits4_at s j) \<Longrightarrow> search_4digits s = Some (take 4 (drop i s))"
proof (induction s arbitrary: i)
  case Nil
  then show ?case by (simp add: digits4_at_def)
next
  case (Cons c cs)
  have shift: "digits4_at (c # cs) (Suc k) = digits4_at cs k" for k
    by (simp add: digits4_at_def add.commute)
  show ?case
  proof (cases i)
    case 0
    with Cons.prems(1) show ?thesis by (simp add: digits4_at_def)
  next
    case (Suc k)
    with Cons.prems have k: "digits4_at cs k" and nk: "\<forall>j<k. \<not> digits4_at cs j"
      and n0: "\<not> digits4_at (c # cs) 0"
      using shift by auto
    from n0 have "search_4digits (c # cs) = search_4digits cs"
      by (auto simp: digits4_at_def)
    with Cons.IH [OF k nk] Suc show ?thesis by simp
  qed
qed

text \<open>
  C9 (amended). \<open>extract_year\<close> of a null cell is the empty string. Otherwise the
  input is stripped and searched: when no position carries four consecutive decimal
  digits the result is the empty string, and else it is the four digits at the leftmost
  such position, whether or not more digits follow them.
\<close>

theorem extract_year_leftmost_window:
  "extract_year None = []
   \<and> ((\<forall>i. \<not> digits4_at (strip p) i) \<longrightarrow> extract_year (Some p) = [])
   \<and> (digits4_at (strip p) i \<and> (\<forall>j<i. \<not> digits4_at (strip p) j)
        \<longrightarrow> extract_year (Some p) = take 4 (drop i (strip p)))"
  using search_4digits_None [of "strip p"] search_4digits_leftmost [of "strip p" i]
  by (auto simp: extract_year_def)

theorem extract_year_leftmost_window_witness:
  "digits4_at (strip ''pub 12345-06 '') 4 \<and> extract_year (Some ''pub 12345-06 '') = ''1234''
   \<and> extract_year (Some ''no year here'') = []"
proof -
  have s: "strip ''pub 12345-06 '' = ''pub 12345-06''"
    by (simp add: strip_def isspace_def)
  have w: "digits4_at (strip ''pub 12345-06 '') 4"
    unfolding s by (simp add: digits4_at_def isdecimal_def)
  have "j < 4 \<Longrightarrow> \<not> digits4_at (strip ''pub 12345-06 '') j" for j
  proof -
    assume "j < 4"
    then have "j = 0 \<or> j = 1 \<or> j = 2 \<or> j = 3" by arith
    then show ?thesis unfolding s by (auto simp: digits4_at_def isdecimal_def)
  qed
  then have l: "\<forall>j<4. \<not> digits4_at (strip ''pub 12345-06 '') j" by blast
  have y: "extract_year (Some ''pub 12345-06 '') = ''1234''"
    using extract_year_leftmost_window [of "''pub 12345-06 ''" 4] w l unfolding s by simp
  have n: "extract_year (Some ''no year here'') = []"
    by (simp add: extract_year_def strip_def isspace_def isdecimal_def)
  show ?thesis using w y n by simp
qed

text \<open>
  A run of five digits is not skipped: its first four digits are the result.
\<close>

theorem extract_year_five_digits_counterexample:
  "extract_year (Some ''12345'') = ''1234''"
  by (simp add: extract_year_def strip_def isspace_def isdecimal_def)

subsection \<open>The candidate matcher\<close>

lemma py_in_iff: "py_in needle hay = (\<exists>ps ss. hay = ps @ needle @ ss)"
proof (induction hay)
  case Nil
  then show ?case by simp
next
  case (Cons c cs)
  have pre: "(take (length needle) (c # cs) = needle) = (\<exists>ss. c # cs = needle @ ss)"
  proof
    assume "take (length needle) (c # cs) = needle"
    then have "c # cs = needle @ drop (length needle) (c # cs)"
      by (metis append_take_drop_id)
    then show "\<exists>ss. c # cs = needle @ ss" ..
  next
    assume "\<exists>ss. c # cs = needle @ ss"
    then obtain ss where "c # cs = needle @ ss" ..
    then show "take (length needle) (c # cs) = needle" by simp
  qed
  have "(\<exists>ps ss. c # cs = ps @ needle @ ss)
        = ((\<exists>ss. c # cs = needle @ ss) \<or> (\<exists>ps ss. cs = ps @ needle @ ss))"
  proof
    assume "\<exists>ps ss. c # cs = ps @ needle @ ss"
    then obtain ps ss where e: "c # cs = ps @ needle @ ss" by blast
    show "(\<exists>ss. c # cs = needle @ ss) \<or> (\<exists>ps ss. cs = ps @ needle @ ss)"
    proof (cases ps)
      case Nil
      with e show ?thesis by auto
    next
      case (Cons p ps')
      with e have "cs = ps' @ needle @ ss" by simp
      then show ?thesis by blast
    qed
  next
    assume "(\<exists>ss. c # cs = needle @ ss) \<or> (\<exists>ps ss. cs = ps @ needle @ ss)"
    then show "\<exists>ps ss. c # cs = ps @ needle @ ss"
    proof
      assume "\<exists>ss. c # cs = needle @ ss"
      then obtain ss where "c # cs = [] @ needle @ ss" by auto
      then show ?thesis by blast
    next
      assume "\<exists>ps ss. cs = ps @ needle @ ss"
      then obtain ps ss where "cs = ps @ needle @ ss" by blast
      then have "c # cs = (c # ps) @ needle @ ss" by simp
      then show ?thesis by blast
    qed
  qed
  with pre Cons.IH show ?case by simp
qed

lemma py_in_empty: "py_in [] hay"
  by (induction hay) simp_all

lemma py_in_length: "py_in needle hay \<Longrightarrow> length needle \<le> length hay"
  by (auto simp: py_in_iff)

lemma py_in_antisym: "py_in a b \<Longrightarrow> py_in b a \<Longrightarrow> a = b"
proof -
  assume ab: "py_in a b" and ba: "py_in b a"
  have l: "length a = length b" using py_in_length [OF ab] py_in_length [OF ba] by simp
  from ab obtain ps ss where e: "b = ps @ a @ ss" by (auto simp: py_in_iff)
  with l have "ps = [] \<and> ss = []" by simp
  with e show ?thesis by simp
qed

text \<open>
  C1 (amended). The title, author and publisher checks of the matcher are one-way:
  the wanted field, in lower case, must occur in the candidate's cleaned field, in
  lower case, and the reverse containment is not accepted. An empty wanted author or
  publisher always passes. A candidate whose title is a proper part of the wanted
  title is therefore never a match.
\<close>

theorem item_matches_one_way:
  "item_matches w it =
     ((\<exists>ps ss. lower (clean_title (title it)) = ps @ lower (w_title w) @ ss)
      \<and> (\<exists>ps ss. lower (strip (author it)) = ps @ lower (w_author w) @ ss)
      \<and> (\<exists>ps ss. lower (strip (publisher it)) = ps @ lower (w_publisher w) @ ss)
      \<and> w_pub_year w = extract_year (Some (strip (pubdate it))))
   \<and> (w_author w = [] \<longrightarrow> py_in (lower (w_author w)) (lower (strip (author it))))
   \<and> (w_publisher w = [] \<longrightarrow> py_in (lower (w_publisher w)) (lower (strip (publisher it))))
   \<and> (py_in (lower (clean_title (title it))) (lower (w_title w))
        \<and> lower (clean_title (title it)) \<noteq> lower (w_title w) \<longrightarrow> \<not> item_matches w it)"
proof -
  have a: "item_matches w it =
     ((\<exists>ps ss. lower (clean_title (title it)) = ps @ lower (w_title w) @ ss)
      \<and> (\<exists>ps ss. lower (strip (author it)) = ps @ lower (w_author w) @ ss)
      \<and> (\<exists>ps ss. lower (strip (publisher it)) = ps @ lower (w_publisher w) @ ss)
      \<and> w_pub_year w = extract_year (Some (strip (pubdate it))))"
    by (simp add: item_matches_def py_in_iff)
  have b: "w_author w = [] \<longrightarrow> py_in (lower (w_author w)) (lower (strip (author it)))"
    by (simp add: lower_def py_in_empty)
  have c: "w_publisher w = [] \<longrightarrow> py_in (lower (w_publisher w)) (lower (strip (publisher it)))"
    by (simp add: lower_def py_in_empty)
  have d: "py_in (lower (clean_title (title it))) (lower (w_title w))
        \<and> lower (clean_title (title it)) \<noteq> lower (w_title w) \<longrightarrow> \<not> item_matches w it"
    using py_in_antisym [of "lower (w_title w)" "lower (clean_title (title it))"]
    by (auto simp: item_matches_def)
  from a b c d show ?thesis by blast
qed

lemma clean_title_short: "clean_title ''<b>Foo</b>'' = ''Foo''"
  by (simp add: clean_title_def replace_empty.simps strip_def isspace_def)

lemma lower_foo: "lower ''Foo'' = ''foo''" "lower ''Foo Bar'' = ''foo bar''"
  by code_simp+

theorem item_matches_one_way_witness:
  "py_in (lower (clean_title (title item_short_title))) (lower (w_title wanted_long_title))
   \<and> \<not> item_matches wanted_long_title item_short_title
   \<and> item_matches wanted_long_title (item_short_title \<lparr>title := ''Foo Bar: a tale''\<rparr>)"
proof -
  have p: "py_in (lower (clean_title (title item_short_title))) (lower (w_title wanted_long_title))"
    by (simp add: item_short_title_def wanted_long_title_def clean_title_short lower_foo)
  have n: "lower (clean_title (title item_short_title)) \<noteq> lower (w_title wanted_long_title)"
    by (simp add: item_short_title_def wanted_long_title_def clean_title_short lower_foo)
  have m: "item_matches wanted_long_title (item_short_title \<lparr>title := ''Foo Bar: a tale''\<rparr>)"
    unfolding item_short_title_def wanted_long_title_def by code_simp
  from p n m item_matches_one_way [of wanted_long_title item_short_title]
  show ?thesis by blast
qed

text \<open>
  The candidate title is contained in the wanted title and every other check passes,
  yet the candidate is no match.
\<close>

theorem item_matches_truncated_title_counterexample:
  "py_in (lower (clean_title (title item_short_title))) (lower (w_title wanted_long_title))
   \<and> w_author wanted_long_title = [] \<and> w_publisher wanted_long_title = []
   \<and> w_pub_year wanted_long_title = extract_year (Some (strip (pubdate item_short_title)))
   \<and> \<not> item_matches wanted_long_title item_short_title"
  by (simp add: item_matches_def item_short_title_def wanted_long_title_def clean_title_short
      lower_foo extract_year_def strip_def)

text \<open>
  C4 (amended). The year check is never skipped: a match needs the wanted year to
  equal the year extracted from the candidate's publication date. With an empty wanted
  year a candidate matches exactly when the three containment checks pass and its
  publication date yields no year; a candidate whose date yields a year does not match.
\<close>

theorem item_matches_year_not_skipped:
  "(item_matches w it \<longrightarrow> w_pub_year w = extract_year (Some (strip (pubdate it))))
   \<and> (w_pub_year w = [] \<longrightarrow>
        item_matches w it =
          (py_in (lower (w_title w)) (lower (clean_title (title it)))
           \<and> py_in (lower (w_author w)) (lower (strip (author it)))
           \<and> py_in (lower (w_publisher w)) (lower (strip (publisher it)))
           \<and> extract_year (Some (strip (pubdate it))) = []))
   \<and> (w_pub_year w = [] \<and> extract_year (Some (strip (pubdate it))) \<noteq> []
        \<longrightarrow> \<not> item_matches w it)"
  by (auto simp: item_matches_def)

theorem item_matches_year_not_skipped_witness:
  "w_pub_year wanted_no_year = []
   \<and> extract_year (Some (strip (pubdate item_dated))) = ''2021''
   \<and> \<not> item_matches wanted_no_year item_dated"
proof -
  have e: "w_pub_year wanted_no_year = []"
    by (simp add: wanted_no_year_def)
  have y: "extract_year (Some (strip (pubdate item_dated))) = ''2021''"
    unfolding item_dated_def by code_simp
  then have "extract_year (Some (strip (pubdate item_dated))) \<noteq> []" by simp
  with e y item_matches_year_not_skipped [of wanted_no_year item_dated]
  show ?thesis by blast
qed

text \<open>
  The wanted year is empty, the title, author and publisher checks pass, the
  candidate's date yields 2021, and the candidate is no match.
\<close>

theorem item_matches_empty_year_counterexample:
  "w_pub_year wanted_no_year = []
   \<and> py_in (lower (w_title wanted_no_year)) (lower (clean_title (title item_dated)))
   \<and> py_in (lower (w_author wanted_no_year)) (lower (strip (author item_dated)))
   \<and> py_in (lower (w_publisher wanted_no_year)) (lower (strip (publisher item_dated)))
   \<and> extract_year (Some (strip (pubdate item_dated))) = ''2021''
   \<and> \<not> item_matches wanted_no_year item_dated"
  unfolding wanted_no_year_def item_dated_def by code_simp

subsection \<open>The query cascade\<close>

lemma rate_limited_Suc:
  "rate_limited srv lg u (Suc k) =
     ((\<exists>its. srv lg u = Response 429 its) \<and> rate_limited srv (lg @ [u]) u k)"
proof -
  have r: "(lg @ [u]) @ replicate j u = lg @ replicate (Suc j) u" for j
    by simp
  show ?thesis
    unfolding rate_limited_def r
  proof
    assume a: "\<forall>j<Suc k. \<exists>its. srv (lg @ replicate j u) u = Response 429 its"
    then have "\<exists>its. srv (lg @ replicate 0 u) u = Response 429 its" by blast
    moreover from a have "\<forall>j<k. \<exists>its. srv (lg @ replicate (Suc j) u) u = Response 429 its" by auto
    ultimately show "(\<exists>its. srv lg u = Response 429 its)
          \<and> (\<forall>j<k. \<exists>its. srv (lg @ replicate (Suc j) u) u = Response 429 its)" by simp
  next
    assume a: "(\<exists>its. srv lg u = Response 429 its)
          \<and> (\<forall>j<k. \<exists>its. srv (lg @ replicate (Suc j) u) u = Response 429 its)"
    show "\<forall>j<Suc k. \<exists>its. srv (lg @ replicate j u) u = Response 429 its"
    proof (intro allI impI)
      fix j assume "j < Suc k"
      with a show "\<exists>its. srv (lg @ replicate j u) u = Response 429 its"
        by (cases j) auto
    qed
  qed
qed

lemma query_attempts_items:
  "retries < max_retries \<Longrightarrow> srv lg u = Response 200 (first_item # rest) \<Longrightarrow>
   query_attempts srv w u max_retries retries lg = (Return (choose_isbn13 w first_item rest), lg @ [u])"
  by (subst query_attempts.simps) simp

lemma query_attempts_no_items:
  "retries < max_retries \<Longrightarrow> srv lg u = Response 200 [] \<Longrightarrow>
   query_attempts srv w u max_retries retries lg = (Break, lg @ [u])"
  by (subst query_attempts.simps) simp

lemma query_attempts_429:
  "retries < max_retries \<Longrightarrow> srv lg u = Response 429 its \<Longrightarrow>
   query_attempts srv w u max_retries retries lg
     = query_attempts srv w u max_retries (retries + 1) (lg @ [u])"
  by (subst query_attempts.simps) simp

lemma query_attempts_used_up:
  "\<not> retries < max_retries \<Longrightarrow> query_attempts srv w u max_retries retries lg = (Break, lg)"
  by (subst query_attempts.simps) simp

lemma query_attempts_rate_limited:
  "rate_limited srv lg u k \<Longrightarrow> retries + k \<le> max_retries \<Longrightarrow>
   query_attempts srv w u max_retries retries lg
     = query_attempts srv w u max_retries (retries + k) (lg @ replicate k u)"
proof (induction k arbitrary: retries lg)
  case 0
  then show ?case by simp
next
  case (Suc k)
  from Suc.prems(1) obtain its where a: "srv lg u = Response 429 its"
    and r: "rate_limited srv (lg @ [u]) u k"
    by (auto simp: rate_limited_Suc)
  from Suc.prems(2) have "retries < max_retries" and le: "(retries + 1) + k \<le> max_retries" by auto
  then have "query_attempts srv w u max_retries retries lg
     = query_attempts srv w u max_retries (retries + 1) (lg @ [u])"
    using a by (simp add: query_attempts_429)
  also have "\<dots> = query_attempts srv w u max_retries (retries + 1 + k) ((lg @ [u]) @ replicate k u)"
    using Suc.IH [OF r le] .
  finally show ?case by (simp add: replicate_app_Cons_same)
qed

lemma scan_items_None:
  "(scan_items w its = None)
     = (\<forall>it \<in> set its. \<not> (item_matches w it \<and> extract_isbn13 (isbn it) \<noteq> None))"
  by (induction its) (auto split: option.splits)

lemma scan_items_first:
  "\<forall>x \<in> set pre. \<not> (item_matches w x \<and> extract_isbn13 (isbn x) \<noteq> None) \<Longrightarrow>
   item_matches w it \<Longrightarrow> extract_isbn13 (isbn it) = Some i \<Longrightarrow>
   scan_items w (pre @ it # post) = Some i"
  by (induction pre) (auto split: option.splits)

lemma query_attempts_some_items:
  "retries < max_retries \<Longrightarrow> srv lg u = Response 200 items \<Longrightarrow> items \<noteq> [] \<Longrightarrow>
   query_attempts srv w u max_retries retries lg
     = (Return (choose_isbn13 w (hd items) (tl items)), lg @ [u])"
  by (cases items) (simp_all add: query_attempts_items)

lemma cascade_used_up:
  "rate_limited srv lg (full_url query 5) max_retries \<Longrightarrow>
   cascade srv w max_retries (query # queries) lg
     = cascade srv w max_retries queries (lg @ replicate max_retries (full_url query 5))"
proof -
  assume "rate_limited srv lg (full_url query 5) max_retries"
  then have "query_attempts srv w (full_url query 5) max_retries 0 lg
      = query_attempts srv w (full_url query 5) max_retries (0 + max_retries)
          (lg @ replicate max_retries (full_url query 5))"
    by (intro query_attempts_rate_limited) auto
  then show ?thesis by (simp add: query_attempts_used_up)
qed

lemma cascade_no_items:
  "0 < max_retries \<Longrightarrow> srv lg (full_url query 5) = Response 200 [] \<Longrightarrow>
   cascade srv w max_retries (query # queries) lg
     = cascade srv w max_retries queries (lg @ [full_url query 5])"
  by (simp add: query_attempts_no_items)

lemma cascade_all_empty:
  "0 < max_retries \<Longrightarrow> \<forall>q \<in> set qs. \<forall>lg'. srv lg' (full_url q 5) = Response 200 [] \<Longrightarrow>
   cascade srv w max_retries qs lg = (None, lg @ map (\<lambda>q. full_url q 5) qs)"
proof (induction qs arbitrary: lg)
  case Nil
  then show ?case by simp
next
  case (Cons q qs)
  then have "cascade srv w max_retries (q # qs) lg
      = cascade srv w max_retries qs (lg @ [full_url q 5])"
    by (intro cascade_no_items) auto
  with Cons show ?case by simp
qed

lemma rate_limited_always: "rate_limited (always (Response 429 its)) lg u k"
  by (simp add: rate_limited_def always_def)

lemma rate_limited_limited_first:
  "length lg + k \<le> n \<Longrightarrow> rate_limited (limited_first n its) lg u k"
  by (simp add: rate_limited_def limited_first_def)

text \<open>
  C3. A query may first be answered 429 some \<open>k < max_retries\<close> times. When it is
  then answered with at least one item and no item satisfies the matcher, the cascade
  returns what \<open>extract_isbn13\<close> gives for the first item, and the log shows the
  requests of this query only: no further query is sent. When it is answered with no
  items, the cascade goes on with the remaining queries. When each of the four queries
  is answered with no items, the result is \<open>None\<close> after one request per query.
\<close>

theorem cascade_fallback_and_continue:
  "(k < max_retries \<and> rate_limited srv lg (full_url query 5) k
     \<and> srv (lg @ replicate k (full_url query 5)) (full_url query 5) = Response 200 (first_item # rest)
     \<and> (\<forall>it \<in> set (first_item # rest). \<not> item_matches w it)
    \<longrightarrow> cascade srv w max_retries (query # queries) lg
          = (extract_isbn13 (isbn first_item), lg @ replicate (Suc k) (full_url query 5)))
   \<and> (k < max_retries \<and> rate_limited srv lg (full_url query 5) k
     \<and> srv (lg @ replicate k (full_url query 5)) (full_url query 5) = Response 200 []
    \<longrightarrow> cascade srv w max_retries (query # queries) lg
          = cascade srv w max_retries queries (lg @ replicate (Suc k) (full_url query 5)))
   \<and> (0 < max_retries
     \<and> (\<forall>q \<in> set (query_combinations w). \<forall>lg'. srv lg' (full_url q 5) = Response 200 [])
    \<longrightarrow> get_isbn13_from_title_author_pub srv w max_retries lg
          = (None, lg @ map (\<lambda>q. full_url q 5) (query_combinations w)))"
proof (intro conjI impI)
  let ?u = "full_url query 5"
  assume a: "k < max_retries \<and> rate_limited srv lg ?u k
     \<and> srv (lg @ replicate k ?u) ?u = Response 200 (first_item # rest)
     \<and> (\<forall>it \<in> set (first_item # rest). \<not> item_matches w it)"
  then have "scan_items w (first_item # rest) = None"
    using scan_items_None [of w "first_item # rest"] by blast
  then have c: "choose_isbn13 w first_item rest = extract_isbn13 (isbn first_item)"
    by (simp add: choose_isbn13_def)
  from a have "query_attempts srv w ?u max_retries 0 lg
      = query_attempts srv w ?u max_retries (0 + k) (lg @ replicate k ?u)"
    by (intro query_attempts_rate_limited) auto
  also from a have "\<dots> = (Return (choose_isbn13 w first_item rest), (lg @ replicate k ?u) @ [?u])"
    by (simp add: query_attempts_items)
  finally show "cascade srv w max_retries (query # queries) lg
          = (extract_isbn13 (isbn first_item), lg @ replicate (Suc k) ?u)"
    using c by (simp add: replicate_append_same)
next
  let ?u = "full_url query 5"
  assume a: "k < max_retries \<and> rate_limited srv lg ?u k
     \<and> srv (lg @ replicate k ?u) ?u = Response 200 []"
  then have "query_attempts srv w ?u max_retries 0 lg
      = query_attempts srv w ?u max_retries (0 + k) (lg @ replicate k ?u)"
    by (intro query_attempts_rate_limited) auto
  also from a have "\<dots> = (Break, (lg @ replicate k ?u) @ [?u])"
    by (simp add: query_attempts_no_items)
  finally show "cascade srv w max_retries (query # queries) lg
          = cascade srv w max_retries queries (lg @ replicate (Suc k) ?u)"
    by (simp add: replicate_append_same)
next
  assume a: "0 < max_retries
     \<and> (\<forall>q \<in> set (query_combinations w). \<forall>lg'. srv lg' (full_url q 5) = Response 200 [])"
  then show "get_isbn13_from_title_author_pub srv w max_retries lg
          = (None, lg @ map (\<lambda>q. full_url q 5) (query_combinations w))"
    by (simp add: get_isbn13_from_title_author_pub_def cascade_all_empty)
qed

text \<open>
  Two rate-limited answers, then two items that do not match: the first item's ISBN13
  after three requests of the first query. One rate-limited answer, then no items:
  the next query. No items for any query: \<open>None\<close>.
\<close>

theorem cascade_fallback_and_continue_witness:
  "get_isbn13_from_title_author_pub (limited_first 2 [item_other, item_other \<lparr>isbn := []\<rparr>]) wanted_foo 5 []
     = (Some ''9791162240007'', replicate 3 (full_url ''Foo Kim Hanbit 2021'' 5))
   \<and> cascade (limited_first 1 []) wanted_foo 5 [''Foo Kim'', ''Foo''] []
     = cascade (limited_first 1 []) wanted_foo 5 [''Foo''] (replicate 2 (full_url ''Foo Kim'' 5))
   \<and> get_isbn13_from_title_author_pub (always (Response 200 [])) wanted_foo 5 []
     = (None, map (\<lambda>q. full_url q 5) (query_combinations wanted_foo))"
proof -
  let ?u = "full_url ''Foo Kim Hanbit 2021'' 5"
  let ?srv = "limited_first 2 [item_other, item_other \<lparr>isbn := []\<rparr>]"
  have q: "query_combinations wanted_foo
      = [''Foo Kim Hanbit 2021'', ''Foo Kim'', ''Foo Hanbit'', ''Foo'']"
    by (simp add: query_combinations_def wanted_foo_def)
  have r: "rate_limited ?srv [] ?u 2"
    by (simp add: rate_limited_limited_first)
  have s: "?srv ([] @ replicate 2 ?u) ?u = Response 200 [item_other, item_other \<lparr>isbn := []\<rparr>]"
    by (simp add: limited_first_def)
  have n1: "\<not> item_matches wanted_foo item_other"
    unfolding wanted_foo_def item_other_def by code_simp
  have n2: "\<not> item_matches wanted_foo (item_other \<lparr>isbn := []\<rparr>)"
    unfolding wanted_foo_def item_other_def by code_simp
  have e: "extract_isbn13 (isbn item_other) = Some ''9791162240007''"
    unfolding item_other_def by code_simp
  have a: "get_isbn13_from_title_author_pub ?srv wanted_foo 5 []
     = (Some ''9791162240007'', replicate 3 ?u)"
    using cascade_fallback_and_continue
      [of 2 5 ?srv "[]" "''Foo Kim Hanbit 2021''" item_other "[item_other \<lparr>isbn := []\<rparr>]" wanted_foo
        "[''Foo Kim'', ''Foo Hanbit'', ''Foo'']"]
      r s n1 n2 e
    by (simp add: get_isbn13_from_title_author_pub_def q numeral_3_eq_3)
  have h: "1 < (5::nat) \<and> rate_limited (limited_first 1 []) [] (full_url ''Foo Kim'' 5) 1
     \<and> limited_first 1 [] ([] @ replicate 1 (full_url ''Foo Kim'' 5)) (full_url ''Foo Kim'' 5)
         = Response 200 []"
    by (simp add: rate_limited_limited_first limited_first_def)
  have "cascade (limited_first 1 []) wanted_foo 5 (''Foo Kim'' # [''Foo'']) []
     = cascade (limited_first 1 []) wanted_foo 5 [''Foo'']
         ([] @ replicate (Suc 1) (full_url ''Foo Kim'' 5))"
    using cascade_fallback_and_continue
      [of 1 5 "limited_first 1 []" "[]" "''Foo Kim''" _ _ wanted_foo "[''Foo'']"] h
    by blast
  then have b: "cascade (limited_first 1 []) wanted_foo 5 [''Foo Kim'', ''Foo''] []
     = cascade (limited_first 1 []) wanted_foo 5 [''Foo''] (replicate 2 (full_url ''Foo Kim'' 5))"
    by (simp add: numeral_2_eq_2 del: cascade.simps)
  have c: "get_isbn13_from_title_author_pub (always (Response 200 [])) wanted_foo 5 []
     = (None, map (\<lambda>q. full_url q 5) (query_combinations wanted_foo))"
    using cascade_fallback_and_continue [of _ 5 "always (Response 200 [])" "[]" _ _ _ wanted_foo]
    by (simp add: always_def)
  from a b c show ?thesis by simp
qed

subsection \<open>The scan of the items\<close>

text \<open>
  C2 (amended). A query may first be answered 429 some \<open>k < max_retries\<close> times.
  When it is then answered with items, they are scanned in the order returned against
  the full wanted record, and the ISBN13 of the first item that both satisfies the
  matcher and yields an ISBN13 is returned; an item that matches but yields none is
  passed over. When no item does both, what \<open>extract_isbn13\<close> gives for the first
  item is returned. In both cases the log shows the requests of this query only: the
  cascade ends here.
\<close>

theorem cascade_first_match_with_isbn13:
  "(k < max_retries \<and> rate_limited srv lg (full_url query 5) k
     \<and> srv (lg @ replicate k (full_url query 5)) (full_url query 5) = Response 200 (pre @ it # post)
     \<and> (\<forall>x \<in> set pre. \<not> (item_matches w x \<and> extract_isbn13 (isbn x) \<noteq> None))
     \<and> item_matches w it \<and> extract_isbn13 (isbn it) = Some i
    \<longrightarrow> cascade srv w max_retries (query # queries) lg
          = (Some i, lg @ replicate (Suc k) (full_url query 5)))
   \<and> (k < max_retries \<and> rate_limited srv lg (full_url query 5) k
     \<and> srv (lg @ replicate k (full_url query 5)) (full_url query 5) = Response 200 (first_item # rest)
     \<and> (\<forall>x \<in> set (first_item # rest). \<not> (item_matches w x \<and> extract_isbn13 (isbn x) \<noteq> None))
    \<longrightarrow> cascade srv w max_retries (query # queries) lg
          = (extract_isbn13 (isbn first_item), lg @ replicate (Suc k) (full_url query 5)))"
proof (intro conjI impI)
  let ?u = "full_url query 5"
  let ?items = "pre @ it # post"
  assume a: "k < max_retries \<and> rate_limited srv lg ?u k
     \<and> srv (lg @ replicate k ?u) ?u = Response 200 ?items
     \<and> (\<forall>x \<in> set pre. \<not> (item_matches w x \<and> extract_isbn13 (isbn x) \<noteq> None))
     \<and> item_matches w it \<and> extract_isbn13 (isbn it) = Some i"
  then have "scan_items w ?items = Some i"
    by (intro scan_items_first) auto
  moreover have "?items \<noteq> []" by simp
  ultimately have c: "choose_isbn13 w (hd ?items) (tl ?items) = Some i"
    by (simp add: choose_isbn13_def)
  from a have "query_attempts srv w ?u max_retries 0 lg
      = query_attempts srv w ?u max_retries (0 + k) (lg @ replicate k ?u)"
    by (intro query_attempts_rate_limited) auto
  also from a have "\<dots> = (Return (choose_isbn13 w (hd ?items) (tl ?items)), (lg @ replicate k ?u) @ [?u])"
    by (intro query_attempts_some_items) auto
  finally show "cascade srv w max_retries (query # queries) lg
          = (Some i, lg @ replicate (Suc k) ?u)"
    using c by (simp add: replicate_append_same)
next
  let ?u = "full_url query 5"
  assume a: "k < max_retries \<and> rate_limited srv lg ?u k
     \<and> srv (lg @ replicate k ?u) ?u = Response 200 (first_item # rest)
     \<and> (\<forall>x \<in> set (first_item # rest). \<not> (item_matches w x \<and> extract_isbn13 (isbn x) \<noteq> None))"
  then have "scan_items w (first_item # rest) = None"
    using scan_items_None [of w "first_item # rest"] by blast
  then have c: "choose_isbn13 w first_item rest = extract_isbn13 (isbn first_item)"
    by (simp add: choose_isbn13_def)
  from a have "query_attempts srv w ?u max_retries 0 lg
      = query_attempts srv w ?u max_retries (0 + k) (lg @ replicate k ?u)"
    by (intro query_attempts_rate_limited) auto
  also from a have "\<dots> = (Return (choose_isbn13 w first_item rest), (lg @ replicate k ?u) @ [?u])"
    by (simp add: query_attempts_items)
  finally show "cascade srv w max_retries (query # queries) lg
          = (extract_isbn13 (isbn first_item), lg @ replicate (Suc k) ?u)"
    using c by (simp add: replicate_append_same)
qed

lemma wanted_foo_queries:
  "query_combinations wanted_foo = [''Foo Kim Hanbit 2021'', ''Foo Kim'', ''Foo Hanbit'', ''Foo'']"
  by (simp add: query_combinations_def wanted_foo_def)

lemma matches_item_no_isbn: "item_matches wanted_foo item_no_isbn"
  unfolding wanted_foo_def item_no_isbn_def by code_simp

lemma matches_item_with_isbn: "item_matches wanted_foo item_with_isbn"
  unfolding wanted_foo_def item_with_isbn_def by code_simp

lemma isbn13_item_no_isbn: "extract_isbn13 (isbn item_no_isbn) = None"
  unfolding item_no_isbn_def by code_simp

lemma isbn13_item_with_isbn: "extract_isbn13 (isbn item_with_isbn) = Some ''9788901234567''"
  unfolding item_with_isbn_def by code_simp

text \<open>
  The first of two matching items carries no ISBN13: the second item's ISBN13 is
  returned. The only item matches and carries no ISBN13: the result is \<open>None\<close>, after
  one request.
\<close>

theorem cascade_first_match_with_isbn13_witness:
  "item_matches wanted_foo item_no_isbn \<and> extract_isbn13 (isbn item_no_isbn) = None
   \<and> get_isbn13_from_title_author_pub (limited_first 1 [item_no_isbn, item_with_isbn]) wanted_foo 5 []
       = (Some ''9788901234567'', replicate 2 (full_url ''Foo Kim Hanbit 2021'' 5))
   \<and> get_isbn13_from_title_author_pub (always (Response 200 [item_no_isbn])) wanted_foo 5 []
       = (None, [full_url ''Foo Kim Hanbit 2021'' 5])"
proof -
  let ?u = "full_url ''Foo Kim Hanbit 2021'' 5"
  let ?srv = "limited_first 1 [item_no_isbn, item_with_isbn]"
  have h: "1 < (5::nat) \<and> rate_limited ?srv [] ?u 1
     \<and> ?srv ([] @ replicate 1 ?u) ?u = Response 200 ([item_no_isbn] @ item_with_isbn # [])
     \<and> (\<forall>x \<in> set [item_no_isbn]. \<not> (item_matches wanted_foo x \<and> extract_isbn13 (isbn x) \<noteq> None))
     \<and> item_matches wanted_foo item_with_isbn
     \<and> extract_isbn13 (isbn item_with_isbn) = Some ''9788901234567''"
    by (simp add: rate_limited_limited_first limited_first_def isbn13_item_no_isbn
        matches_item_with_isbn isbn13_item_with_isbn)
  have "cascade ?srv wanted_foo 5 (''Foo Kim Hanbit 2021'' # [''Foo Kim'', ''Foo Hanbit'', ''Foo'']) []
       = (Some ''9788901234567'', [] @ replicate (Suc 1) ?u)"
    using cascade_first_match_with_isbn13
      [of 1 5 ?srv "[]" "''Foo Kim Hanbit 2021''" "[item_no_isbn]" item_with_isbn "[]" wanted_foo
        "''9788901234567''" "[''Foo Kim'', ''Foo Hanbit'', ''Foo'']"] h
    by blast
  then have a: "get_isbn13_from_title_author_pub ?srv wanted_foo 5 []
       = (Some ''9788901234567'', replicate 2 ?u)"
    by (simp add: get_isbn13_from_title_author_pub_def wanted_foo_queries numeral_2_eq_2
        del: cascade.simps)
  let ?one = "always (Response 200 [item_no_isbn])"
  have g: "0 < (5::nat) \<and> rate_limited ?one [] ?u 0
     \<and> ?one ([] @ replicate 0 ?u) ?u = Response 200 (item_no_isbn # [])
     \<and> (\<forall>x \<in> set (item_no_isbn # []). \<not> (item_matches wanted_foo x \<and> extract_isbn13 (isbn x) \<noteq> None))"
    by (simp add: rate_limited_def always_def isbn13_item_no_isbn)
  have "cascade ?one wanted_foo 5 (''Foo Kim Hanbit 2021'' # [''Foo Kim'', ''Foo Hanbit'', ''Foo'']) []
       = (extract_isbn13 (isbn item_no_isbn), [] @ replicate (Suc 0) ?u)"
    using cascade_first_match_with_isbn13
      [where k = 0 and max_retries = 5 and srv = ?one and lg = "[]"
        and query = "''Foo Kim Hanbit 2021''" and w = wanted_foo and first_item = item_no_isbn
        and rest = "[]" and queries = "[''Foo Kim'', ''Foo Hanbit'', ''Foo'']"] g
    by blast
  then have b: "get_isbn13_from_title_author_pub ?one wanted_foo 5 []
       = (None, [?u])"
    by (simp add: get_isbn13_from_title_author_pub_def wanted_foo_queries isbn13_item_no_isbn
        del: cascade.simps)
  from a b matches_item_no_isbn isbn13_item_no_isbn show ?thesis by simp
qed

text \<open>
  The first item satisfying the matcher yields no ISBN13, and the resolver does not
  return that absence: it returns the ISBN13 of a later item.
\<close>

theorem cascade_matched_item_without_isbn13_counterexample:
  "item_matches wanted_foo item_no_isbn \<and> extract_isbn13 (isbn item_no_isbn) = None
   \<and> fst (get_isbn13_from_title_author_pub (always (Response 200 [item_no_isbn, item_with_isbn]))
            wanted_foo 5 []) = Some ''9788901234567''"
proof -
  let ?srv = "always (Response 200 [item_no_isbn, item_with_isbn])"
  have "scan_items wanted_foo [item_no_isbn, item_with_isbn] = Some ''9788901234567''"
    by (simp add: matches_item_no_isbn matches_item_with_isbn isbn13_item_no_isbn
        isbn13_item_with_isbn)
  then have "choose_isbn13 wanted_foo item_no_isbn [item_with_isbn] = Some ''9788901234567''"
    by (simp add: choose_isbn13_def)
  moreover have "query_attempts ?srv wanted_foo (full_url ''Foo Kim Hanbit 2021'' 5) 5 0 []
      = (Return (choose_isbn13 wanted_foo item_no_isbn [item_with_isbn]),
         [] @ [full_url ''Foo Kim Hanbit 2021'' 5])"
    by (intro query_attempts_items) (simp_all add: always_def)
  ultimately have "fst (get_isbn13_from_title_author_pub ?srv wanted_foo 5 []) = Some ''9788901234567''"
    by (simp add: get_isbn13_from_title_author_pub_def wanted_foo_queries)
  with matches_item_no_isbn isbn13_item_no_isbn show ?thesis by simp
qed

subsection \<open>Retries on rate limiting\<close>

lemma book_info_attempts_no_items:
  "retries < max_retries \<Longrightarrow> srv lg u = Response 200 [] \<Longrightarrow>
   book_info_attempts srv u max_retries retries lg = (None, lg @ [u])"
  by (subst book_info_attempts.simps) simp

lemma book_info_attempts_items:
  "retries < max_retries \<Longrightarrow> srv lg u = Response 200 (it # rest) \<Longrightarrow>
   book_info_attempts srv u max_retries retries lg = (Some (book_info it), lg @ [u])"
  by (subst book_info_attempts.simps) simp

lemma book_info_attempts_429:
  "retries < max_retries \<Longrightarrow> srv lg u = Response 429 its \<Longrightarrow>
   book_info_attempts srv u max_retries retries lg
     = book_info_attempts srv u max_retries (retries + 1) (lg @ [u])"
  by (subst book_info_attempts.simps) simp

lemma book_info_attempts_used_up:
  "\<not> retries < max_retries \<Longrightarrow> book_info_attempts srv u max_retries retries lg = (None, lg)"
  by (subst book_info_attempts.simps) simp

lemma book_info_attempts_rate_limited:
  "rate_limited srv lg u k \<Longrightarrow> retries + k \<le> max_retries \<Longrightarrow>
   book_info_attempts srv u max_retries retries lg
     = book_info_attempts srv u max_retries (retries + k) (lg @ replicate k u)"
proof (induction k arbitrary: retries lg)
  case 0
  then show ?case by simp
next
  case (Suc k)
  from Suc.prems(1) obtain its where a: "srv lg u = Response 429 its"
    and r: "rate_limited srv (lg @ [u]) u k"
    by (auto simp: rate_limited_Suc)
  from Suc.prems(2) have "retries < max_retries" and le: "(retries + 1) + k \<le> max_retries" by auto
  then have "book_info_attempts srv u max_retries retries lg
     = book_info_attempts srv u max_retries (retries + 1) (lg @ [u])"
    using a by (simp add: book_info_attempts_429)
  also have "\<dots> = book_info_attempts srv u max_retries (retries + 1 + k) ((lg @ [u]) @ replicate k u)"
    using Suc.IH [OF r le] .
  finally show ?case by (simp add: replicate_app_Cons_same)
qed

lemma body_used_up:
  "rate_limited srv lg (full_url isbn13 1) max_retries \<Longrightarrow>
   get_book_info_by_isbn13_body srv isbn13 max_retries lg
     = (None, lg @ replicate max_retries (full_url isbn13 1))"
proof -
  assume "rate_limited srv lg (full_url isbn13 1) max_retries"
  then have "book_info_attempts srv (full_url isbn13 1) max_retries 0 lg
      = book_info_attempts srv (full_url isbn13 1) max_retries (0 + max_retries)
          (lg @ replicate max_retries (full_url isbn13 1))"
    by (intro book_info_attempts_rate_limited) auto
  then show ?thesis
    by (simp add: get_book_info_by_isbn13_body_def book_info_attempts_used_up)
qed

lemma body_no_items:
  "0 < max_retries \<Longrightarrow> srv lg (full_url isbn13 1) = Response 200 [] \<Longrightarrow>
   get_book_info_by_isbn13_body srv isbn13 max_retries lg = (None, lg @ [full_url isbn13 1])"
  by (simp add: get_book_info_by_isbn13_body_def book_info_attempts_no_items)

text \<open>
  C5 (amended). When \<open>max_retries\<close> requests in a row are answered 429, the lookup
  by ISBN13 stops after exactly that many requests and returns \<open>None\<close>, the value it
  also returns for a 200 answer without items. In the resolver the query is given up
  after that many requests and the cascade goes on with the next query, as it does
  after a 200 answer without items. The two cases differ in the number of requests
  made, not in the result.
\<close>

theorem retries_used_up_like_no_items:
  "(rate_limited srv lg (full_url ident 1) max_retries
    \<longrightarrow> get_book_info_by_isbn13_body srv ident max_retries lg
          = (None, lg @ replicate max_retries (full_url ident 1)))
   \<and> (0 < max_retries \<and> srv lg (full_url ident 1) = Response 200 []
    \<longrightarrow> get_book_info_by_isbn13_body srv ident max_retries lg
          = (None, lg @ [full_url ident 1]))
   \<and> (rate_limited srv lg (full_url query 5) max_retries
    \<longrightarrow> cascade srv w max_retries (query # queries) lg
          = cascade srv w max_retries queries (lg @ replicate max_retries (full_url query 5)))
   \<and> (0 < max_retries \<and> srv lg (full_url query 5) = Response 200 []
    \<longrightarrow> cascade srv w max_retries (query # queries) lg
          = cascade srv w max_retries queries (lg @ [full_url query 5]))"
  using body_used_up [of srv lg ident max_retries] body_no_items [of max_retries srv lg ident]
    cascade_used_up [of srv lg query max_retries w queries]
    cascade_no_items [of max_retries srv lg query w queries]
  by blast

text \<open>
  Five 429 answers and one empty 200 answer, for the lookup by ISBN13 and for a
  cascade of one query: \<open>None\<close> each time, after five requests or after one.
\<close>

theorem retries_used_up_like_no_items_witness:
  "get_book_info_by_isbn13_body (always (Response 429 [])) ''9788901234567'' 5 []
     = (None, replicate 5 (full_url ''9788901234567'' 1))
   \<and> get_book_info_by_isbn13_body (always (Response 200 [])) ''9788901234567'' 5 []
     = (None, [full_url ''9788901234567'' 1])
   \<and> cascade (always (Response 429 [])) wanted_foo 5 [''Foo''] []
     = (None, replicate 5 (full_url ''Foo'' 5))
   \<and> cascade (always (Response 200 [])) wanted_foo 5 [''Foo''] []
     = (None, [full_url ''Foo'' 5])"
proof -
  have r: "rate_limited (always (Response 429 [])) [] u 5" for u
    by (rule rate_limited_always)
  have e: "0 < (5::nat) \<and> always (Response 200 []) [] u = Response 200 []" for u
    by (simp add: always_def)
  note t1 = retries_used_up_like_no_items
    [where srv = "always (Response 429 [])" and lg = "[]" and ident = "''9788901234567''"
      and max_retries = 5 and query = "''Foo''" and w = wanted_foo and queries = "[]"]
  note t2 = retries_used_up_like_no_items
    [where srv = "always (Response 200 [])" and lg = "[]" and ident = "''9788901234567''"
      and max_retries = 5 and query = "''Foo''" and w = wanted_foo and queries = "[]"]
  have a: "get_book_info_by_isbn13_body (always (Response 429 [])) ''9788901234567'' 5 []
     = (None, [] @ replicate 5 (full_url ''9788901234567'' 1))"
    using t1 r by blast
  have b: "get_book_info_by_isbn13_body (always (Response 200 [])) ''9788901234567'' 5 []
     = (None, [] @ [full_url ''9788901234567'' 1])"
    using t2 e by blast
  have c: "cascade (always (Response 429 [])) wanted_foo 5 [''Foo''] []
     = cascade (always (Response 429 [])) wanted_foo 5 [] ([] @ replicate 5 (full_url ''Foo'' 5))"
    using t1 r by blast
  have d: "cascade (always (Response 200 [])) wanted_foo 5 [''Foo''] []
     = cascade (always (Response 200 [])) wanted_foo 5 [] ([] @ [full_url ''Foo'' 5])"
    using t2 e by blast
  from a b c d show ?thesis by (simp del: cascade.simps(2))
qed

text \<open>
  A service that always answers 429 and a service that always answers 200 without
  items give the same result, for the lookup by ISBN13 and for the resolver.
\<close>

theorem rate_limit_failure_indistinguishable_counterexample:
  "fst (get_book_info_by_isbn13 (always (Response 429 [])) ''9788901234567'' (Map.empty, []))
     = fst (get_book_info_by_isbn13 (always (Response 200 [])) ''9788901234567'' (Map.empty, []))
   \<and> fst (get_isbn13_from_title_author_pub (always (Response 429 [])) wanted_foo 5 [])
     = fst (get_isbn13_from_title_author_pub (always (Response 200 [])) wanted_foo 5 [])"
proof -
  have "get_book_info_by_isbn13_body (always (Response 429 [])) ''9788901234567'' 5 []
     = (None, [] @ replicate 5 (full_url ''9788901234567'' 1))"
    by (rule body_used_up) (rule rate_limited_always)
  then have a: "fst (get_book_info_by_isbn13 (always (Response 429 [])) ''9788901234567'' (Map.empty, []))
     = None"
    by (simp add: get_book_info_by_isbn13_def)
  have "get_book_info_by_isbn13_body (always (Response 200 [])) ''9788901234567'' 5 []
     = (None, [] @ [full_url ''9788901234567'' 1])"
    by (rule body_no_items) (simp_all add: always_def)
  then have b: "fst (get_book_info_by_isbn13 (always (Response 200 [])) ''9788901234567'' (Map.empty, []))
     = None"
    by (simp add: get_book_info_by_isbn13_def)
  have all_limited: "cascade (always (Response 429 [])) w 5 qs lg
      = (None, lg @ concat (map (\<lambda>q. replicate 5 (full_url q 5)) qs))" for w qs lg
  proof (induction qs arbitrary: lg)
    case Nil
    then show ?case by simp
  next
    case (Cons q qs)
    have "cascade (always (Response 429 [])) w 5 (q # qs) lg
        = cascade (always (Response 429 [])) w 5 qs (lg @ replicate 5 (full_url q 5))"
      by (rule cascade_used_up) (rule rate_limited_always)
    with Cons.IH show ?case by simp
  qed
  then have c: "fst (get_isbn13_from_title_author_pub (always (Response 429 [])) wanted_foo 5 []) = None"
    by (simp add: get_isbn13_from_title_author_pub_def)
  have "get_isbn13_from_title_author_pub (always (Response 200 [])) wanted_foo 5 []
     = (None, [] @ map (\<lambda>q. full_url q 5) (query_combinations wanted_foo))"
    unfolding get_isbn13_from_title_author_pub_def
    by (rule cascade_all_empty) (simp_all add: always_def)
  then have d: "fst (get_isbn13_from_title_author_pub (always (Response 200 [])) wanted_foo 5 []) = None"
    by simp
  from a b c d show ?thesis by simp
qed

subsection \<open>The comparison of feature 2\<close>

text \<open>
  C7. A row whose ISBN13 cell, once stripped, is empty or shorter than 13 characters
  gets the verdict \<open>CannotSearch\<close>; its items column holds the note that the ISBN13
  was not entered and no names of mismatched fields; the memo and the request log are
  returned as they were, so no lookup was made for the row.
\<close>

theorem verify_one_cannot_search:
  "cell_text (v_isbn13 row) = [] \<or> length (cell_text (v_isbn13 row)) < 13
   \<longrightarrow> verify_one srv row w = ((CannotSearch, Isbn13NotEntered), w)"
  by (auto simp: verify_one_def)

text \<open>
  The ISBN13 cell holds 123 between blanks, or is null.
\<close>

theorem verify_one_cannot_search_witness:
  "length (cell_text (v_isbn13 row_short_isbn13)) = 3
   \<and> verify_one (always (Response 200 [item_foo_bar])) row_short_isbn13 (Map.empty, [])
      = ((CannotSearch, Isbn13NotEntered), (Map.empty, []))
   \<and> verify_one (always (Response 200 [item_foo_bar])) (row_short_isbn13 \<lparr>v_isbn13 := None\<rparr>)
        (Map.empty, [])
      = ((CannotSearch, Isbn13NotEntered), (Map.empty, []))"
proof -
  have l: "length (cell_text (v_isbn13 row_short_isbn13)) = 3"
    unfolding row_short_isbn13_def by code_simp
  have n: "cell_text (v_isbn13 (row_short_isbn13 \<lparr>v_isbn13 := None\<rparr>)) = []"
    by (simp add: cell_text_def)
  from l n
    verify_one_cannot_search [of row_short_isbn13 "always (Response 200 [item_foo_bar])" "(Map.empty, [])"]
    verify_one_cannot_search [of "row_short_isbn13 \<lparr>v_isbn13 := None\<rparr>"
      "always (Response 200 [item_foo_bar])" "(Map.empty, [])"]
  show ?thesis by simp
qed

lemma mismatch_list_spec:
  "mismatch_list (cell_text (v_title row)) (cell_text (v_author row)) (cell_text (v_publisher row))
     (cell_text (v_price row)) (cell_text (v_pubdate row)) info
   = filter (spec_flagged row info) [Title, Author, Publisher, Year, Price]"
  by (simp add: mismatch_list_def Let_def)

text \<open>
  C8. When the ISBN13 is long enough and the lookup gives a record, the fields flagged
  are those the rules of the specification flag, listed in the order title, author,
  publisher, year, price: the verdict is \<open>Match\<close>, with the items column untouched,
  when none is flagged, and \<open>Mismatch\<close> with that list otherwise. The price is flagged
  exactly when the stripped original price is not empty and differs from the fetched
  price as a string.
\<close>

theorem verify_one_verdict:
  "13 \<le> length (cell_text (v_isbn13 row))
   \<and> get_book_info_by_isbn13 srv (cell_text (v_isbn13 row)) w = (Some info, w')
   \<longrightarrow> verify_one srv row w
        = (if filter (spec_flagged row info) [Title, Author, Publisher, Year, Price] = []
           then (Match, Untouched)
           else (Mismatch, Joined (filter (spec_flagged row info) [Title, Author, Publisher, Year, Price])),
           w')"
proof
  assume a: "13 \<le> length (cell_text (v_isbn13 row))
   \<and> get_book_info_by_isbn13 srv (cell_text (v_isbn13 row)) w = (Some info, w')"
  then have "cell_text (v_isbn13 row) \<noteq> []" by auto
  with a show "verify_one srv row w
        = (if filter (spec_flagged row info) [Title, Author, Publisher, Year, Price] = []
           then (Match, Untouched)
           else (Mismatch, Joined (filter (spec_flagged row info) [Title, Author, Publisher, Year, Price])),
           w')"
    unfolding verify_one_def Let_def mismatch_list_spec by (simp add: not_less [symmetric])
qed

lemma book_info_foo_bar:
  "book_info item_foo_bar
     = \<lparr>title = ''Foo Bar'', author = ''Kim'', publisher = ''Hanbit'', pubdate = ''20210301'',
        price = ''12000'', isbn = ''8901234567 9788901234567''\<rparr>"
  unfolding item_foo_bar_def by code_simp

text \<open>
  The example of the specification: the original title Foo is contained in the
  fetched title Foo Bar, the prices 10000 and 12000 differ, and the list is the price
  alone. With the original price 12000 after a blank, nothing is flagged.
\<close>

theorem verify_one_verdict_witness:
  "fst (verify_one (always (Response 200 [item_foo_bar])) row_foo (Map.empty, []))
     = (Mismatch, Joined [Price])
   \<and> fst (verify_one (always (Response 200 [item_foo_bar])) (row_foo \<lparr>v_price := Some '' 12000''\<rparr>)
        (Map.empty, []))
     = (Match, Untouched)"
proof -
  let ?srv = "always (Response 200 [item_foo_bar])"
  let ?w' = "(Map.empty(''9788901234567'' \<mapsto> Some (book_info item_foo_bar)),
              [full_url ''9788901234567'' 1])"
  have i: "cell_text (v_isbn13 row_foo) = ''9788901234567''"
    unfolding row_foo_def by code_simp
  have "book_info_attempts ?srv (full_url ''9788901234567'' 1) 5 0 []
      = (Some (book_info item_foo_bar), [] @ [full_url ''9788901234567'' 1])"
    by (rule book_info_attempts_items) (simp_all add: always_def)
  then have g: "get_book_info_by_isbn13 ?srv ''9788901234567'' (Map.empty, [])
      = (Some (book_info item_foo_bar), ?w')"
    by (simp add: get_book_info_by_isbn13_def get_book_info_by_isbn13_body_def)
  have f1: "filter (spec_flagged row_foo (book_info item_foo_bar)) [Title, Author, Publisher, Year, Price]
      = [Price]"
    unfolding book_info_foo_bar row_foo_def by code_simp
  have f2: "filter (spec_flagged (row_foo \<lparr>v_price := Some '' 12000''\<rparr>) (book_info item_foo_bar))
        [Title, Author, Publisher, Year, Price] = []"
    unfolding book_info_foo_bar row_foo_def by code_simp
  have a: "verify_one ?srv row_foo (Map.empty, []) = ((Mismatch, Joined [Price]), ?w')"
    using verify_one_verdict [of row_foo ?srv "(Map.empty, [])" "book_info item_foo_bar" ?w'] i g f1
    by simp
  have i2: "cell_text (v_isbn13 (row_foo \<lparr>v_price := Some '' 12000''\<rparr>)) = ''9788901234567''"
    using i by simp
  have b: "verify_one ?srv (row_foo \<lparr>v_price := Some '' 12000''\<rparr>) (Map.empty, [])
      = ((Match, Untouched), ?w')"
    using verify_one_verdict [of "row_foo \<lparr>v_price := Some '' 12000''\<rparr>" ?srv "(Map.empty, [])"
        "book_info item_foo_bar" ?w'] i2 g f2
    by simp
  from a b show ?thesis by simp
qed

lemma verify_one_isbn10: "verify_one srv (row \<lparr>v_isbn10 := x\<rparr>) w = verify_one srv row w"
  by (simp add: verify_one_def)

text \<open>
  C10. The ISBN10 cell of a row is read and never used: changing it changes neither
  the two output cells of the row nor the memo and log after it, for one row and for
  a whole sheet.
\<close>

theorem isbn10_not_used:
  "verify_one srv (row \<lparr>v_isbn10 := x\<rparr>) w = verify_one srv row w
   \<and> run_feature_2 srv (map (\<lambda>r. r \<lparr>v_isbn10 := f r\<rparr>) rows) w = run_feature_2 srv rows w"
proof
  show "verify_one srv (row \<lparr>v_isbn10 := x\<rparr>) w = verify_one srv row w"
    by (rule verify_one_isbn10)
  show "run_feature_2 srv (map (\<lambda>r. r \<lparr>v_isbn10 := f r\<rparr>) rows) w = run_feature_2 srv rows w"
    by (induction rows arbitrary: w) (simp_all add: verify_one_isbn10)
qed

theorem isbn10_not_used_witness:
  "verify_one (always (Response 200 [item_foo_bar])) (row_foo \<lparr>v_isbn10 := Some ''8901234567''\<rparr>)
      (Map.empty, [])
     = verify_one (always (Response 200 [item_foo_bar])) row_foo (Map.empty, [])
   \<and> run_feature_2 (always (Response 200 [item_foo_bar]))
        (map (\<lambda>r. r \<lparr>v_isbn10 := None\<rparr>) [row_short_isbn13, row_foo]) (Map.empty, [])
     = run_feature_2 (always (Response 200 [item_foo_bar])) [row_short_isbn13, row_foo] (Map.empty, [])"
  using isbn10_not_used [where srv = "always (Response 200 [item_foo_bar])" and row = row_foo
      and x = "Some ''8901234567''" and w = "(Map.empty, [])" and f = "\<lambda>r. None"
      and rows = "[row_short_isbn13, row_foo]"]
  by blast

subsection \<open>The cache of feature 1\<close>

lemma query_attempts_log:
  "length lg \<le> length (snd (query_attempts srv w u max_retries retries lg))
   \<and> (retries < max_retries \<longrightarrow> length lg < length (snd (query_attempts srv w u max_retries retries lg)))"
proof (induction srv w u max_retries retries lg rule: query_attempts.induct)
  case (1 srv w u max_retries retries lg)
  show ?case
  proof (cases "retries < max_retries")
    case False
    then show ?thesis by (simp add: query_attempts_used_up)
  next
    case True
    show ?thesis
    proof (cases "srv lg u")
      case RequestException
      with True show ?thesis by (subst query_attempts.simps, subst (2) query_attempts.simps) simp
    next
      case (Response status_code items)
      consider "status_code = 200" | "status_code \<noteq> 200" "status_code = 429"
        | "status_code \<noteq> 200" "status_code \<noteq> 429" by blast
      then show ?thesis
      proof cases
        case 1
        with True Response show ?thesis
          by (subst query_attempts.simps, subst (2) query_attempts.simps) (simp split: list.splits)
      next
        case 2
        with True Response have e: "query_attempts srv w u max_retries retries lg
            = query_attempts srv w u max_retries (retries + 1) (lg @ [u])"
          by (simp add: query_attempts_429)
        from "1.IH" [OF True Response 2]
        have "length (lg @ [u]) \<le> length (snd (query_attempts srv w u max_retries (retries + 1) (lg @ [u])))"
          by blast
        with e show ?thesis by simp
      next
        case 3
        with True Response show ?thesis
          by (subst query_attempts.simps, subst (2) query_attempts.simps) simp
      qed
    qed
  qed
qed

lemma cascade_log: "length lg \<le> length (snd (cascade srv w max_retries queries lg))"
proof (induction queries arbitrary: lg)
  case Nil
  then show ?case by simp
next
  case (Cons q qs)
  obtain out lg' where e: "query_attempts srv w (full_url q 5) max_retries 0 lg = (out, lg')"
    by (cases "query_attempts srv w (full_url q 5) max_retries 0 lg")
  with query_attempts_log [of lg srv w "full_url q 5" max_retries 0]
  have l: "length lg \<le> length lg'" by simp
  show ?case
  proof (cases out)
    case (Return r)
    with e l show ?thesis by simp
  next
    case Break
    with e l Cons.IH [of lg'] show ?thesis by simp
  qed
qed

lemma cascade_log_grows:
  "0 < max_retries \<Longrightarrow> length lg < length (snd (cascade srv w max_retries (q # qs) lg))"
proof -
  assume m: "0 < max_retries"
  obtain out lg' where e: "query_attempts srv w (full_url q 5) max_retries 0 lg = (out, lg')"
    by (cases "query_attempts srv w (full_url q 5) max_retries 0 lg")
  with m query_attempts_log [of lg srv w "full_url q 5" max_retries 0]
  have l: "length lg < length lg'" by simp
  show ?thesis
  proof (cases out)
    case (Return r)
    with e l show ?thesis by simp
  next
    case Break
    with e l cascade_log [of lg' srv w max_retries qs] show ?thesis by simp
  qed
qed

lemma resolution_sends_request:
  "length lg < length (snd (get_isbn13_from_title_author_pub srv w 5 lg))"
  by (simp add: get_isbn13_from_title_author_pub_def query_combinations_def cascade_log_grows
      del: cascade.simps)

lemma convert_one_hit:
  "cell_text (c_title row) \<noteq> [] \<Longrightarrow> fst st (cache_key row) = Some v \<Longrightarrow>
   convert_one srv row st = (isbn_column v, st)"
  by (simp add: convert_one_def cache_key_def Let_def)

lemma convert_one_stores:
  "cell_text (c_title row) \<noteq> [] \<Longrightarrow>
   \<exists>v. fst (snd (convert_one srv row st)) (cache_key row) = Some v
       \<and> fst (convert_one srv row st) = isbn_column v"
  by (auto simp: convert_one_def cache_key_def Let_def split: option.splits prod.splits)

lemma convert_one_keeps:
  "fst st k = Some v \<Longrightarrow> fst (snd (convert_one srv row st)) k = Some v"
  by (auto simp: convert_one_def Let_def split: option.splits prod.splits)

lemma convert_rows_Cons:
  "fst (convert_rows srv (row # rows) st)
     = fst (convert_one srv row st) # fst (convert_rows srv rows (snd (convert_one srv row st)))"
  "snd (convert_rows srv (row # rows) st) = snd (convert_rows srv rows (snd (convert_one srv row st)))"
  by (simp_all split: prod.splits)

lemma convert_rows_keeps:
  "fst st k = Some v \<Longrightarrow> fst (snd (convert_rows srv rows st)) k = Some v"
proof (induction rows arbitrary: st)
  case Nil
  then show ?case by simp
next
  case (Cons row rows)
  from convert_one_keeps [OF Cons.prems, of srv row]
  have "fst (snd (convert_one srv row st)) k = Some v" .
  from Cons.IH [OF this] show ?case by (simp only: convert_rows_Cons)
qed

lemma convert_rows_append:
  "convert_rows srv (xs @ ys) st
     = (case convert_rows srv xs st of
          (cs, st') \<Rightarrow> (case convert_rows srv ys st' of (ds, st'') \<Rightarrow> (cs @ ds, st'')))"
  by (induction xs arbitrary: st) (simp_all split: prod.splits)

lemma convert_rows_length: "length (fst (convert_rows srv rows st)) = length rows"
  by (induction rows arbitrary: st) (simp_all add: convert_rows_Cons del: convert_rows.simps(2))

text \<open>
  C6. Take a run of feature 1 over the rows \<open>pre @ r1 # mid\<close>, where \<open>r1\<close> has a
  title, and a further row \<open>r2\<close> with the same cache key (stripped title, author and
  publisher, and extracted year). Whatever was resolved for \<open>r1\<close>, also \<open>None\<close>, is
  in the cache under that key at the end of the run, and it is what the ISBN cell of
  \<open>r1\<close> shows. The row \<open>r2\<close> then gets the same cell as \<open>r1\<close>, and the cache and the
  request log after it are those before it. A row without title never reaches the
  resolver. Since every call of the resolver sends at least one request, an unchanged
  log means that the resolver did not run.
\<close>

theorem one_resolution_per_fingerprint:
  "(cache_key r2 = cache_key r1 \<and> cell_text (c_title r1) \<noteq> []
     \<and> run_feature_1 srv (pre @ r1 # mid) lg = (cells, st)
    \<longrightarrow> convert_one srv r2 st = (cells ! length pre, st)
        \<and> (\<exists>v. fst st (cache_key r1) = Some v \<and> isbn_column v = cells ! length pre)
        \<and> run_feature_1 srv (pre @ r1 # mid @ [r2]) lg = (cells @ [cells ! length pre], st))
   \<and> (cell_text (c_title r) = [] \<longrightarrow> convert_one srv r st' = (NoTitle, st'))
   \<and> length lg' < length (snd (get_isbn13_from_title_author_pub srv w 5 lg'))"
proof (intro conjI impI)
  show "length lg' < length (snd (get_isbn13_from_title_author_pub srv w 5 lg'))"
    by (rule resolution_sends_request)
next
  assume "cell_text (c_title r) = []"
  then show "convert_one srv r st' = (NoTitle, st')"
    by (simp add: convert_one_def)
next
  assume a: "cache_key r2 = cache_key r1 \<and> cell_text (c_title r1) \<noteq> []
     \<and> run_feature_1 srv (pre @ r1 # mid) lg = (cells, st)"
  obtain cs st0 where p: "convert_rows srv pre (Map.empty, lg) = (cs, st0)"
    by (cases "convert_rows srv pre (Map.empty, lg)")
  obtain c st1 where o: "convert_one srv r1 st0 = (c, st1)"
    by (cases "convert_one srv r1 st0")
  obtain ds st2 where m: "convert_rows srv mid st1 = (ds, st2)"
    by (cases "convert_rows srv mid st1")
  from a p o m have cells: "cells = cs @ c # ds" and st: "st = st2"
    by (simp_all add: run_feature_1_def convert_rows_append)
  have "length cs = length pre"
    using convert_rows_length [of srv pre "(Map.empty, lg)"] p by simp
  with cells have nth: "cells ! length pre = c" by (simp add: nth_append)
  from a convert_one_stores [of r1 srv st0] o
  obtain v where v: "fst st1 (cache_key r1) = Some v" and c: "c = isbn_column v" by auto
  from convert_rows_keeps [OF v, of srv mid] m st
  have stored: "fst st (cache_key r1) = Some v" by simp
  from a have t2: "cell_text (c_title r2) \<noteq> []" by (simp add: cache_key_def)
  from a stored have "fst st (cache_key r2) = Some v" by simp
  from convert_one_hit [OF t2 this] c nth
  show hit: "convert_one srv r2 st = (cells ! length pre, st)" by simp
  from stored c nth
  show "\<exists>v. fst st (cache_key r1) = Some v \<and> isbn_column v = cells ! length pre" by auto
  have "pre @ r1 # mid @ [r2] = (pre @ r1 # mid) @ [r2]" by simp
  then have "run_feature_1 srv (pre @ r1 # mid @ [r2]) lg
      = (case run_feature_1 srv (pre @ r1 # mid) lg of
           (xs, s) \<Rightarrow> (case convert_rows srv [r2] s of (ds, s') \<Rightarrow> (xs @ ds, s')))"
    unfolding run_feature_1_def by (simp only: convert_rows_append)
  with a hit show "run_feature_1 srv (pre @ r1 # mid @ [r2]) lg = (cells @ [cells ! length pre], st)"
    by simp
qed

text \<open>
  Two rows for the same book, typed differently, with a row without title between
  them: both get the ISBN13 found, and the whole run sends one request.
\<close>

theorem one_resolution_per_fingerprint_witness:
  "cache_key row_kim_again = cache_key row_kim
   \<and> fst (run_feature_1 (always (Response 200 [item_with_isbn]))
          [row_kim, row_untitled, row_kim_again] [])
       = [Isbn13 ''9788901234567'', NoTitle, Isbn13 ''9788901234567'']
   \<and> snd (snd (run_feature_1 (always (Response 200 [item_with_isbn]))
          [row_kim, row_untitled, row_kim_again] []))
       = [full_url ''Foo Kim Hanbit 2021'' 5]"
proof -
  let ?srv = "always (Response 200 [item_with_isbn])"
  let ?X = "run_feature_1 ?srv [row_kim, row_untitled] []"
  have k: "cache_key row_kim_again = cache_key row_kim"
    unfolding row_kim_again_def row_kim_def by code_simp
  have t: "cell_text (c_title row_kim) \<noteq> []"
    unfolding row_kim_def by code_simp
  have r: "run_feature_1 ?srv ([] @ row_kim # [row_untitled]) [] = (fst ?X, snd ?X)"
    by simp
  have c: "fst ?X = [Isbn13 ''9788901234567'', NoTitle]"
    unfolding row_kim_def row_untitled_def item_with_isbn_def by code_simp
  have l: "snd (snd ?X) = [full_url ''Foo Kim Hanbit 2021'' 5]"
    unfolding row_kim_def row_untitled_def item_with_isbn_def by code_simp
  from one_resolution_per_fingerprint
    [where ?r2.0 = row_kim_again and ?r1.0 = row_kim and srv = ?srv and pre = "[]"
      and mid = "[row_untitled]" and lg = "[]" and cells = "fst ?X" and st = "snd ?X"] k t r
  have "run_feature_1 ?srv ([] @ row_kim # [row_untitled] @ [row_kim_again]) []
      = (fst ?X @ [fst ?X ! length ([] :: convert_row list)], snd ?X)"
    by blast
  with c l k show ?thesis by simp
qed

end
